theory Spec2Isabelle
  imports Main "HOL-Library.Word"
begin

unbundle bit_operations_syntax

section \<open>Regular-expression syntax trees\<close>

text \<open>
  The generator consumes the syntax trees of Go's \<open>regexp/syntax\<close>. A node carries its
  operation, its flags, its runes (the code points of a literal, or the \<open>lo, hi\<close> pairs of a
  character class), the bounds of a counted repetition and its sub-expressions: the fields
  \<open>r.Op\<close>, \<open>r.Flags\<close>, \<open>r.Rune\<close>, \<open>r.Min\<close>, \<open>r.Max\<close> and \<open>r.Sub\<close> that regen.go and the
  normalisation it calls read. \<open>OpNoMatch\<close> is the one operation for which regen.go
  registers no factory.
\<close>

datatype op =
    OpNoMatch | OpEmptyMatch | OpLiteral | OpCharClass | OpAnyCharNotNL | OpAnyChar
  | OpBeginLine | OpEndLine | OpBeginText | OpEndText | OpWordBoundary | OpNoWordBoundary
  | OpCapture | OpStar | OpPlus | OpQuest | OpRepeat | OpConcat | OpAlternate

type_synonym rune = int

text \<open>
  \<open>syntax.Flags\<close> is a 16-bit mask. \<open>Perl\<close> is the union of four flags, one of them
  \<open>UnicodeGroups\<close>.
\<close>

type_synonym flags = "16 word"

definition ClassNL :: flags where "ClassNL = 4"
definition OneLine :: flags where "OneLine = 16"
definition NonGreedy :: flags where "NonGreedy = 32"
definition PerlX :: flags where "PerlX = 64"
definition UnicodeGroups :: flags where "UnicodeGroups = 128"
definition Perl :: flags where "Perl = ClassNL OR OneLine OR PerlX OR UnicodeGroups"

datatype regexp =
  Regexp (Op: op) (Flags_r: flags) (Rune: "rune list") (Min_r: int) (Max_r: int)
    (Sub: "regexp list")

text \<open>A generated string, as the sequence of its code points.\<close>

type_synonym gostring = "rune list"

record GeneratorArgs =
  Flags :: flags

section \<open>Normalisation: \<open>Regexp.Simplify\<close>\<close>

text \<open>
  regen.go calls \<open>r.Simplify()\<close> on every node before it looks the factory up.
  \<open>Simplify\<close> belongs to the standard library (\<open>regexp/syntax\<close>, file simplify.go) and is
  transcribed from there. It returns an expression without counted repetitions. Go
  compares expressions as pointers (\<open>nsub != sub\<close>, \<open>sub == re.Sub[0]\<close>): a call returns
  either its receiver or an expression that is not its receiver, so the result is paired
  with the answer to "is this the receiver itself". The one operation of \<open>Simplify\<close> that
  can panic is the indexing \<open>re.Sub[0]\<close> of a repetition that has no sub-expression:
  \<open>None\<close> is that panic.
\<close>

text \<open>
  \<open>simplify1(op, flags, sub, re)\<close> implements \<open>Simplify\<close> for the unary operators
  \<open>OpStar\<close>, \<open>OpPlus\<close> and \<open>OpQuest\<close>, under the assumption that \<open>sub\<close> is already simple.
  \<open>re\<close> is nil, or the expression that may be returned unchanged, given with the answer
  to \<open>sub == re.Sub[0]\<close>.
\<close>

definition simplify1 ::
  "op \<Rightarrow> flags \<Rightarrow> regexp \<Rightarrow> (regexp \<times> bool) option \<Rightarrow> regexp \<times> bool" where
  "simplify1 op' flgs sub re =
     (if Op sub = OpEmptyMatch then (sub, False)
      else if op' = Op sub \<and> (flgs AND NonGreedy) = (Flags_r sub AND NonGreedy) then (sub, False)
      else
        (case re of
           Some (re', subIsFirst) \<Rightarrow>
             if Op re' = op' \<and> (Flags_r re' AND NonGreedy) = (flgs AND NonGreedy) \<and> subIsFirst
             then (re', True)
             else (Regexp op' flgs [] 0 0 [sub], False)
         | None \<Rightarrow> (Regexp op' flgs [] 0 0 [sub], False)))"

text \<open>
  The loop that nests the optional copies of \<open>x{n,m}\<close>:
  \<open>for i := re.Min + 1; i < re.Max; i++ { suffix = simplify1(OpQuest, flags, concat(sub, suffix), nil) }\<close>,
  with the number of rounds that are left.
\<close>

primrec suffixLoop :: "flags \<Rightarrow> regexp \<Rightarrow> nat \<Rightarrow> regexp \<Rightarrow> regexp" where
  "suffixLoop flgs sub 0 suffix = suffix"
| "suffixLoop flgs sub (Suc n) suffix =
     suffixLoop flgs sub n
       (fst (simplify1 OpQuest flgs (Regexp OpConcat 0 [] 0 0 [sub, suffix]) None))"

text \<open>
  The case \<open>OpRepeat\<close> of \<open>Simplify\<close>, from the point where the sub-expression has been
  simplified into \<open>sub\<close>: \<open>x{n,}\<close> is \<open>n - 1\<close> copies of \<open>x\<close> and \<open>x+\<close> (with \<open>x{0,}\<close>
  being \<open>x*\<close> and \<open>x{1,}\<close> being \<open>x+\<close>), \<open>x{1}\<close> is \<open>x\<close>, and \<open>x{n,m}\<close> is \<open>n\<close> copies of
  \<open>x\<close> followed by \<open>m - n\<close> nested copies of \<open>x?\<close>; a degenerate case such as
  \<open>min > max\<close> without a prefix is the impossible match.
\<close>

definition simplifyRepeat :: "flags \<Rightarrow> int \<Rightarrow> int \<Rightarrow> regexp \<Rightarrow> regexp" where
  "simplifyRepeat flgs mn mx sub =
     (if mx = - 1 then
        (if mn = 0 then fst (simplify1 OpStar flgs sub None)
         else if mn = 1 then fst (simplify1 OpPlus flgs sub None)
         else Regexp OpConcat 0 [] 0 0
                (replicate (nat (mn - 1)) sub @ [fst (simplify1 OpPlus flgs sub None)]))
      else if mn = 1 \<and> mx = 1 then sub
      else
        (let prefix = (if mn > 0 then Some (replicate (nat mn) sub) else None) in
         if mx > mn then
           (let suffix = suffixLoop flgs sub (nat (mx - (mn + 1)))
                           (fst (simplify1 OpQuest flgs sub None)) in
            case prefix of
              None \<Rightarrow> suffix
            | Some subs \<Rightarrow> Regexp OpConcat 0 [] 0 0 (subs @ [suffix]))
         else
           (case prefix of
              Some subs \<Rightarrow> Regexp OpConcat 0 [] 0 0 subs
            | None \<Rightarrow> Regexp OpNoMatch 0 [] 0 0 [])))"

text \<open>
  \<open>Simplify\<close> itself. For \<open>OpCapture\<close>, \<open>OpConcat\<close> and \<open>OpAlternate\<close> it simplifies the
  children in order and builds a new expression (a copy of the node without its runes)
  if a child changed. For \<open>OpStar\<close>, \<open>OpPlus\<close> and \<open>OpQuest\<close> it simplifies \<open>re.Sub[0]\<close>
  and calls \<open>simplify1\<close>. For \<open>OpRepeat\<close>, \<open>x{0}\<close> is the empty match, decided before
  \<open>re.Sub[0]\<close> is read. Every other expression is returned as it is.
\<close>

primrec simplifyNode :: "regexp \<Rightarrow> (regexp \<times> bool) option" where
  "simplifyNode (Regexp op' flgs runes mn mx subs) =
     (let re = Regexp op' flgs runes mn mx subs; nsubs = map simplifyNode subs in
      if op' = OpCapture \<or> op' = OpConcat \<or> op' = OpAlternate then
        (case those nsubs of
           None \<Rightarrow> None
         | Some xs \<Rightarrow>
             if list_all snd xs then Some (re, True)
             else Some (Regexp op' flgs [] mn mx (map fst xs), False))
      else if op' = OpStar \<or> op' = OpPlus \<or> op' = OpQuest then
        (case nsubs of
           [] \<Rightarrow> None
         | None # _ \<Rightarrow> None
         | Some (sub, same) # _ \<Rightarrow> Some (simplify1 op' flgs sub (Some (re, same))))
      else if op' = OpRepeat then
        (if mn = 0 \<and> mx = 0 then Some (Regexp OpEmptyMatch 0 [] 0 0 [], False)
         else
           (case nsubs of
              [] \<Rightarrow> None
            | None # _ \<Rightarrow> None
            | Some (sub, same) # _ \<Rightarrow> Some (simplifyRepeat flgs mn mx sub, False)))
      else Some (re, True))"

definition Simplify :: "regexp \<Rightarrow> regexp option" where
  "Simplify r = map_option fst (simplifyNode r)"

section \<open>Failures\<close>

text \<open>
  A Go panic and a returned \<open>error\<close> are different outcomes: a panic unwinds through every
  caller, an error is a value the caller may wrap. The messages of regen.go are kept as
  structured values holding what the format string prints.
\<close>

datatype panic =
    InvalidOp op op
  | InvalidArgument string
  | IndexOutOfRange
  | EmptyCharClass

datatype message =
    UnicodeGroupsNotSupported
  | ConcatPattern regexp
  | AlternatePattern regexp
  | ExpectedSingleSub op nat regexp
  | RepeatSubexpression regexp

datatype gen_error =
    GeneratorError "gen_error option" message
  | ParseError string
  | InvalidGeneratorPattern regexp regexp

datatype fault = Error gen_error | Panic panic

text \<open>
  Modelled from the spec: \<open>generatorError\<close> is called by regen.go and defined in a file of
  the package that is not part of the sources. It builds an error from an optional cause
  and a formatted message; a nested compile error is "wrapped with the parent node's
  context".
\<close>

definition generatorError :: "gen_error option \<Rightarrow> message \<Rightarrow> gen_error" where
  "generatorError cause msg = GeneratorError cause msg"

section \<open>The random source\<close>

text \<open>
  \<open>math/rand\<close> is outside the repository. The source of randomness is an arbitrary
  infinite sequence of raw draws; every call consumes one draw and reduces it into the
  range the library documents: \<open>Int31\<close> returns a value in \<open>[0, 2^31)\<close>, \<open>Intn n\<close> and
  \<open>Int31n n\<close> a value in \<open>[0, n)\<close>, and both panic when \<open>n \<le> 0\<close>. Every sequence of
  results the library can return is the image of some sequence of draws.
\<close>

type_synonym rng = "nat \<Rightarrow> nat"

definition draw :: "rng \<Rightarrow> nat \<times> rng" where
  "draw g = (g 0, \<lambda>k. g (Suc k))"

definition Int31 :: "rng \<Rightarrow> int \<times> rng" where
  "Int31 g = (case draw g of (d, g') \<Rightarrow> (int d mod 2 ^ 31, g'))"

definition Intn :: "int \<Rightarrow> rng \<Rightarrow> panic + (int \<times> rng)" where
  "Intn n g =
     (if n \<le> 0 then Inl (InvalidArgument ''Intn'')
      else case draw g of (d, g') \<Rightarrow> Inr (int d mod n, g'))"

definition Int31n :: "int \<Rightarrow> rng \<Rightarrow> panic + (int \<times> rng)" where
  "Int31n n g =
     (if n \<le> 0 then Inl (InvalidArgument ''Int31n'')
      else case draw g of (d, g') \<Rightarrow> Inr (int d mod n, g'))"

text \<open>
  A generator is the closure \<open>func() string\<close>: it reads and advances the random source,
  and returns a string unless it panics.
\<close>

type_synonym generator = "rng \<Rightarrow> panic + (gostring \<times> rng)"

text \<open>
  The result of building a generator: \<open>None\<close> when the recursion budget of
  \<open>newGenerator\<close> (below) is used up, otherwise the pair \<open>(Generator, error)\<close> of the Go
  functions, or the panic that unwound the call.
\<close>

type_synonym compiled = "(fault + generator) option"

section \<open>Package util\<close>

text \<open>
  Modelled from the spec: \<open>util.RunesToString\<close> (package \<open>util\<close> is not part of the
  sources) returns "the fixed string formed by those code points, verbatim".
\<close>

definition RunesToString :: "rune list \<Rightarrow> gostring" where
  "RunesToString rs = rs"

text \<open>
  Modelled from the spec: \<open>util.Abs\<close> (not part of the sources) is applied to the index
  drawn for a character class, "discarding sign".
\<close>

definition Abs :: "int \<Rightarrow> int" where
  "Abs i = (if i < 0 then - i else i)"

text \<open>
  A 32-bit signed integer of Go (\<open>int32\<close>): a value that does not fit wraps around into
  \<open>[-2^31, 2^31)\<close>.
\<close>

definition goInt32 :: "int \<Rightarrow> int" where
  "goInt32 x = (x + 2 ^ 31) mod 2 ^ 32 - 2 ^ 31"

text \<open>
  Modelled from the spec: \<open>util.CharClass\<close> (not part of the sources), the
  Character-Class Index: "an ordered sequence of disjoint inclusive ranges \<open>[lo, hi]\<close> over
  code points, plus a cached \<open>totalSize = \<Sigma>(hi - lo + 1)\<close>". regen.go passes the field
  \<open>charClass.TotalSize\<close> to \<open>Int31n\<close>, whose parameter is an \<open>int32\<close>: the cached count is
  a 32-bit signed integer.
\<close>

record CharClass =
  Ranges :: "(rune \<times> rune) list"
  TotalSize :: int

text \<open>
  Modelled from the spec: the "sum of range sizes", accumulated range by range.
\<close>

fun sumSizes :: "int \<Rightarrow> (rune \<times> rune) list \<Rightarrow> int" where
  "sumSizes acc [] = acc"
| "sumSizes acc ((lo, hi) # rs) = sumSizes (acc + (hi - lo + 1)) rs"

text \<open>
  Modelled from the spec: building the index, "built once from AST rune-range data (or
  synthesized), immutable thereafter". The sum is stored in the 32-bit field.
\<close>

definition buildCharClass :: "(rune \<times> rune) list \<Rightarrow> CharClass" where
  "buildCharClass rs = \<lparr>Ranges = rs, TotalSize = goInt32 (sumSizes 0 rs)\<rparr>"

text \<open>
  Modelled from the spec: \<open>totalSize()\<close> is the "sum of range sizes; fails only if the
  input range list is empty (a class with zero addressable code points cannot generate)".
  The failure belongs to the reading of the total, not to the building of the class.
\<close>

definition totalSize :: "CharClass \<Rightarrow> panic + int" where
  "totalSize c = (if Ranges c = [] then Inl EmptyCharClass else Inr (TotalSize c))"

text \<open>
  Modelled from the spec: \<open>util.NewCharClass(start, end)\<close> (not part of the sources), the
  class "over the single range".
\<close>

definition NewCharClass :: "rune \<Rightarrow> rune \<Rightarrow> CharClass" where
  "NewCharClass start end' = buildCharClass [(start, end')]"

text \<open>
  Modelled from the spec: \<open>util.ParseCharClass(runes)\<close> (not part of the sources), the
  class "over the node's own ranges". A class node lists its ranges as consecutive
  \<open>lo, hi\<close> pairs of runes.
\<close>

fun rangePairs :: "rune list \<Rightarrow> (rune \<times> rune) list" where
  "rangePairs (lo # hi # rs) = (lo, hi) # rangePairs rs"
| "rangePairs _ = []"

definition ParseCharClass :: "rune list \<Rightarrow> CharClass" where
  "ParseCharClass runes = buildCharClass (rangePairs runes)"

text \<open>
  Modelled from the spec: \<open>GetRuneAt\<close> (not part of the sources), the spec's
  \<open>codePointAt\<close>: "walk ranges accumulating offsets until the cumulative size exceeds \<open>i\<close>;
  the code point is \<open>range.lo + (i - cumulative_before)\<close>. Out-of-bounds index is a
  programming-contract violation". The offsets of the walk are kept in "a wide-enough
  integer".
\<close>

fun walkRanges :: "int \<Rightarrow> (rune \<times> rune) list \<Rightarrow> int \<Rightarrow> panic + rune" where
  "walkRanges cum [] i = Inl IndexOutOfRange"
| "walkRanges cum ((lo, hi) # rs) i =
     (if i < cum + (hi - lo + 1) then Inr (lo + (i - cum))
      else walkRanges (cum + (hi - lo + 1)) rs i)"

definition GetRuneAt :: "CharClass \<Rightarrow> int \<Rightarrow> panic + rune" where
  "GetRuneAt c i = (if i < 0 then Inl IndexOutOfRange else walkRanges 0 (Ranges c) i)"

section \<open>Generators (regen.go)\<close>

definition MaxUpperBound :: int where
  "MaxUpperBound = 4096"

text \<open>
  Go's \<open>int\<close>, taken as 64 bits wide: the result of an addition or subtraction wraps
  around into \<open>[-2^63, 2^63)\<close>.
\<close>

definition goInt :: "int \<Rightarrow> int" where
  "goInt x = (x + 2 ^ 63) mod 2 ^ 64 - 2 ^ 63"

type_synonym generatorFactory = "(regexp \<Rightarrow> compiled) \<Rightarrow> regexp \<Rightarrow> compiled"

text \<open>
  \<open>enforceOp\<close> panics if \<open>r.Op \<noteq> op\<close>: the result is the panic, if any.
\<close>

definition enforceOp :: "regexp \<Rightarrow> op \<Rightarrow> panic option" where
  "enforceOp r op' = (if Op r \<noteq> op' then Some (InvalidOp op' (Op r)) else None)"

text \<open>\<open>enforceSingleSub\<close> returns an error if \<open>r\<close> has 0 or more than 1 sub-expression.\<close>

definition enforceSingleSub :: "regexp \<Rightarrow> gen_error option" where
  "enforceSingleSub r =
     (if length (Sub r) \<noteq> 1
      then Some (generatorError None (ExpectedSingleSub (Op r) (length (Sub r)) r))
      else None)"

text \<open>
  \<open>newGenerators\<close> creates a generator for each expression of \<open>rs\<close>, in order, and
  returns at the first failure. The function that builds one generator is a parameter:
  in regen.go it is the package-level \<open>newGenerator\<close>, which the factories call back.
\<close>

fun newGenerators :: "(regexp \<Rightarrow> compiled) \<Rightarrow> regexp list \<Rightarrow> (fault + generator list) option" where
  "newGenerators rec [] = Some (Inr [])"
| "newGenerators rec (subR # rs) =
     (case rec subR of
        None \<Rightarrow> None
      | Some (Inl err) \<Rightarrow> Some (Inl err)
      | Some (Inr g) \<Rightarrow>
          (case newGenerators rec rs of
             None \<Rightarrow> None
           | Some (Inl err) \<Rightarrow> Some (Inl err)
           | Some (Inr gs) \<Rightarrow> Some (Inr (g # gs))))"

text \<open>The generator that does nothing.\<close>

definition noop :: "regexp \<Rightarrow> compiled" where
  "noop r = Some (Inr (\<lambda>rng. Inr ([], rng)))"

definition opEmptyMatch :: "regexp \<Rightarrow> compiled" where
  "opEmptyMatch r =
     (case enforceOp r OpEmptyMatch of
        Some p \<Rightarrow> Some (Inl (Panic p))
      | None \<Rightarrow> Some (Inr (\<lambda>rng. Inr ([], rng))))"

definition opLiteral :: "regexp \<Rightarrow> compiled" where
  "opLiteral r =
     (case enforceOp r OpLiteral of
        Some p \<Rightarrow> Some (Inl (Panic p))
      | None \<Rightarrow> Some (Inr (\<lambda>rng. Inr (RunesToString (Rune r), rng))))"

definition opAnyChar :: "regexp \<Rightarrow> compiled" where
  "opAnyChar r =
     (case enforceOp r OpAnyChar of
        Some p \<Rightarrow> Some (Inl (Panic p))
      | None \<Rightarrow>
          Some (Inr (\<lambda>rng. case Int31 rng of (v, rng') \<Rightarrow> Inr (RunesToString [v], rng'))))"

text \<open>
  The closure of \<open>createCharClassGenerator\<close>: draw an index below the total size, look
  the rune up, return it as a string.
\<close>

definition createCharClassGenerator :: "CharClass \<Rightarrow> compiled" where
  "createCharClassGenerator charClass =
     Some (Inr (\<lambda>rng.
       case totalSize charClass of
         Inl p \<Rightarrow> Inl p
       | Inr n \<Rightarrow>
           (case Int31n n rng of
              Inl p \<Rightarrow> Inl p
            | Inr (v, rng') \<Rightarrow>
                (case GetRuneAt charClass (Abs v) of
                   Inl p \<Rightarrow> Inl p
                 | Inr r \<Rightarrow> Inr (RunesToString [r], rng')))))"

definition MaxInt32 :: int where
  "MaxInt32 = 2147483647"

definition opAnyCharNotNl :: "regexp \<Rightarrow> compiled" where
  "opAnyCharNotNl r =
     (case enforceOp r OpAnyCharNotNL of
        Some p \<Rightarrow> Some (Inl (Panic p))
      | None \<Rightarrow>
          (let charClass = NewCharClass 1 MaxInt32 in
           createCharClassGenerator charClass))"

definition opCharClass :: "regexp \<Rightarrow> compiled" where
  "opCharClass r =
     (case enforceOp r OpCharClass of
        Some p \<Rightarrow> Some (Inl (Panic p))
      | None \<Rightarrow>
          (let charClass = ParseCharClass (Rune r) in
           createCharClassGenerator charClass))"

text \<open>
  The loop of the repeating generator: \<open>for ; n > 0; n-- { buffer.WriteString(...) }\<close>.
\<close>

function repeatLoop :: "generator \<Rightarrow> int \<Rightarrow> gostring \<Rightarrow> rng \<Rightarrow> panic + (gostring \<times> rng)" where
  "repeatLoop generator n buffer rng =
     (if n > 0 then
        (case generator rng of
           Inl p \<Rightarrow> Inl p
         | Inr (s, rng') \<Rightarrow> repeatLoop generator (n - 1) (buffer @ s) rng')
      else Inr (buffer, rng))"
  by pat_completeness auto
termination
  by (relation "measure (\<lambda>(g, n, b, r). nat n)") auto

text \<open>
  \<open>createRepeatingGenerator\<close> returns a generator that runs the generator for \<open>r\<close>'s
  sub-expression \<open>[min, max]\<close> times.
\<close>

definition createRepeatingGenerator :: "(regexp \<Rightarrow> compiled) \<Rightarrow> regexp \<Rightarrow> int \<Rightarrow> int \<Rightarrow> compiled" where
  "createRepeatingGenerator rec r min' max' =
     (case enforceSingleSub r of
        Some err \<Rightarrow> Some (Inl (Error err))
      | None \<Rightarrow>
          (case rec (Sub r ! 0) of
             None \<Rightarrow> None
           | Some (Inl (Error err)) \<Rightarrow>
               Some (Inl (Error (generatorError (Some err) (RepeatSubexpression r))))
           | Some (Inl (Panic p)) \<Rightarrow> Some (Inl (Panic p))
           | Some (Inr generator) \<Rightarrow>
               (let max'' = (if max' < 0 then MaxUpperBound else max') in
                Some (Inr (\<lambda>rng.
                  case Intn (goInt (goInt (max'' - min') + 1)) rng of
                    Inl p \<Rightarrow> Inl p
                  | Inr (k, rng') \<Rightarrow> repeatLoop generator (goInt (min' + k)) [] rng')))))"

definition opQuest :: generatorFactory where
  "opQuest rec r =
     (case enforceOp r OpQuest of
        Some p \<Rightarrow> Some (Inl (Panic p))
      | None \<Rightarrow> createRepeatingGenerator rec r 0 1)"

definition opStar :: generatorFactory where
  "opStar rec r =
     (case enforceOp r OpStar of
        Some p \<Rightarrow> Some (Inl (Panic p))
      | None \<Rightarrow> createRepeatingGenerator rec r 0 (- 1))"

definition opPlus :: generatorFactory where
  "opPlus rec r =
     (case enforceOp r OpPlus of
        Some p \<Rightarrow> Some (Inl (Panic p))
      | None \<Rightarrow> createRepeatingGenerator rec r 1 (- 1))"

definition opRepeat :: generatorFactory where
  "opRepeat rec r =
     (case enforceOp r OpRepeat of
        Some p \<Rightarrow> Some (Inl (Panic p))
      | None \<Rightarrow> createRepeatingGenerator rec r (Min_r r) (Max_r r))"

text \<open>
  The closure of \<open>opConcat\<close>: run every generator in order, appending to the buffer.
\<close>

fun concatLoop :: "generator list \<Rightarrow> gostring \<Rightarrow> rng \<Rightarrow> panic + (gostring \<times> rng)" where
  "concatLoop [] buffer rng = Inr (buffer, rng)"
| "concatLoop (generator # gs) buffer rng =
     (case generator rng of
        Inl p \<Rightarrow> Inl p
      | Inr (s, rng') \<Rightarrow> concatLoop gs (buffer @ s) rng')"

definition opConcat :: generatorFactory where
  "opConcat rec r =
     (case enforceOp r OpConcat of
        Some p \<Rightarrow> Some (Inl (Panic p))
      | None \<Rightarrow>
          (case newGenerators rec (Sub r) of
             None \<Rightarrow> None
           | Some (Inl (Error err)) \<Rightarrow>
               Some (Inl (Error (generatorError (Some err) (ConcatPattern r))))
           | Some (Inl (Panic p)) \<Rightarrow> Some (Inl (Panic p))
           | Some (Inr generators) \<Rightarrow> Some (Inr (\<lambda>rng. concatLoop generators [] rng))))"

text \<open>
  The closure of \<open>opAlternate\<close>: \<open>i := args.Rng.Intn(numGens)\<close>, then
  \<open>generators[i].Generate()\<close>; indexing a slice out of its range panics.
\<close>

definition alternateGen :: "generator list \<Rightarrow> generator" where
  "alternateGen generators rng =
     (let numGens = int (length generators) in
      case Intn numGens rng of
        Inl p \<Rightarrow> Inl p
      | Inr (i, rng') \<Rightarrow>
          (if 0 \<le> i \<and> i < int (length generators) then (generators ! nat i) rng'
           else Inl IndexOutOfRange))"

definition opAlternate :: generatorFactory where
  "opAlternate rec r =
     (case enforceOp r OpAlternate of
        Some p \<Rightarrow> Some (Inl (Panic p))
      | None \<Rightarrow>
          (case newGenerators rec (Sub r) of
             None \<Rightarrow> None
           | Some (Inl (Error err)) \<Rightarrow>
               Some (Inl (Error (generatorError (Some err) (AlternatePattern r))))
           | Some (Inl (Panic p)) \<Rightarrow> Some (Inl (Panic p))
           | Some (Inr generators) \<Rightarrow> Some (Inr (alternateGen generators))))"

definition opCapture :: generatorFactory where
  "opCapture rec r =
     (case enforceOp r OpCapture of
        Some p \<Rightarrow> Some (Inl (Panic p))
      | None \<Rightarrow>
          (case enforceSingleSub r of
             Some err \<Rightarrow> Some (Inl (Error err))
           | None \<Rightarrow> rec (Sub r ! 0)))"

text \<open>The table \<open>generatorFactories\<close> filled by \<open>init\<close>.\<close>

definition generatorFactories :: "op \<Rightarrow> generatorFactory option" where
  "generatorFactories = map_of
     [(OpEmptyMatch, \<lambda>rec. opEmptyMatch),
      (OpLiteral, \<lambda>rec. opLiteral),
      (OpAnyCharNotNL, \<lambda>rec. opAnyCharNotNl),
      (OpAnyChar, \<lambda>rec. opAnyChar),
      (OpQuest, opQuest),
      (OpStar, opStar),
      (OpPlus, opPlus),
      (OpRepeat, opRepeat),
      (OpCharClass, \<lambda>rec. opCharClass),
      (OpConcat, opConcat),
      (OpAlternate, opAlternate),
      (OpCapture, opCapture),
      (OpBeginLine, \<lambda>rec. noop),
      (OpEndLine, \<lambda>rec. noop),
      (OpBeginText, \<lambda>rec. noop),
      (OpEndText, \<lambda>rec. noop),
      (OpWordBoundary, \<lambda>rec. noop),
      (OpNoWordBoundary, \<lambda>rec. noop)]"

text \<open>
  \<open>newGenerator\<close> creates a generator for \<open>r\<close>: it simplifies the node, looks the factory
  of the simplified node's operation up and calls it. The normalisation is a parameter,
  so that what holds for every normalisation is stated for every normalisation; in the
  program it is \<open>Simplify\<close>. \<open>None\<close> from the normalisation is its panic, the run-time
  error of an index out of range, which unwinds \<open>newGenerator\<close> too. The factories call
  \<open>newGenerator\<close> back on the sub-expressions of the simplified node, which are simplified
  again: the depth of this recursion is bounded by a budget, and \<open>None\<close> says that the
  budget was used up.
\<close>

primrec newGenerator :: "(regexp \<Rightarrow> regexp option) \<Rightarrow> nat \<Rightarrow> regexp \<Rightarrow> compiled" where
  "newGenerator simplify 0 r = None"
| "newGenerator simplify (Suc depth) r =
     (case simplify r of
        None \<Rightarrow> Some (Inl (Panic IndexOutOfRange))
      | Some simplified \<Rightarrow>
          (case generatorFactories (Op simplified) of
             Some factory \<Rightarrow> factory (newGenerator simplify depth) simplified
           | None \<Rightarrow> Some (Inl (Error (InvalidGeneratorPattern r simplified)))))"

text \<open>
  \<open>NewGenerator\<close> creates a generator for the pattern \<open>r\<close>. If \<open>args\<close> is nil, default
  values are used. The parser \<open>syntax.Parse\<close> is a parameter. The random source is not
  part of the arguments here: the generator receives it when it runs.
\<close>

definition NewGenerator ::
  "(string \<Rightarrow> flags \<Rightarrow> string + regexp) \<Rightarrow> (regexp \<Rightarrow> regexp option) \<Rightarrow> nat \<Rightarrow>
   string \<Rightarrow> GeneratorArgs option \<Rightarrow> compiled" where
  "NewGenerator parse simplify depth r args =
     (let args' = (case args of None \<Rightarrow> \<lparr>Flags = 0\<rparr> | Some a \<Rightarrow> a) in
      if (Flags args' AND UnicodeGroups) = UnicodeGroups \<and> (Flags args' AND Perl) \<noteq> Perl
      then Some (Inl (Error (generatorError None UnicodeGroupsNotSupported)))
      else
        (case parse r (Flags args') of
           Inl err \<Rightarrow> Some (Inl (Error (ParseError err)))
         | Inr regexp \<Rightarrow> newGenerator simplify depth regexp))"

text \<open>
  \<open>Generate\<close> builds a generator with default arguments and runs it once. Running a
  built generator once is \<open>generateOnce\<close>: a failure to build is returned as it is, a
  panic of the closure is a panic of the call.
\<close>

definition generateOnce :: "compiled \<Rightarrow> rng \<Rightarrow> (fault + gostring) option" where
  "generateOnce c rng =
     (case c of
        None \<Rightarrow> None
      | Some (Inl f) \<Rightarrow> Some (Inl f)
      | Some (Inr generator) \<Rightarrow>
          (case generator rng of
             Inl p \<Rightarrow> Some (Inl (Panic p))
           | Inr (s, rng') \<Rightarrow> Some (Inr s)))"

definition Generate ::
  "(string \<Rightarrow> flags \<Rightarrow> string + regexp) \<Rightarrow> (regexp \<Rightarrow> regexp option) \<Rightarrow> nat \<Rightarrow>
   string \<Rightarrow> rng \<Rightarrow> (fault + gostring) option" where
  "Generate parse simplify depth r rng = generateOnce (NewGenerator parse simplify depth r None) rng"

section \<open>Notions used to state the properties\<close>

text \<open>The random source whose every draw is \<open>d\<close>.\<close>

definition constRng :: "nat \<Rightarrow> rng" where
  "constRng d = (\<lambda>k. d)"

text \<open>The flags \<open>NewGenerator\<close> works with: those of \<open>args\<close>, or none when \<open>args\<close> is nil.\<close>

definition flagsOf :: "GeneratorArgs option \<Rightarrow> flags" where
  "flagsOf args = (case args of None \<Rightarrow> 0 | Some a \<Rightarrow> Flags a)"

text \<open>
  The bound on the count of a repetition that the closure of \<open>createRepeatingGenerator\<close>
  works with: \<open>if max < 0 { max = MaxUpperBound }\<close>.
\<close>

definition effectiveMax :: "int \<Rightarrow> int" where
  "effectiveMax mx = (if mx < 0 then MaxUpperBound else mx)"

text \<open>
  After the spec's words for a repetition, "invoke the child generator \<open>n\<close> times,
  concatenate": \<open>n\<close> invocations, one after the other on the state the previous one left,
  and the outputs appended in that order. The loop of the code is compared with it.
\<close>

primrec invokeTimes :: "nat \<Rightarrow> generator \<Rightarrow> generator" where
  "invokeTimes 0 g rng = Inr ([], rng)"
| "invokeTimes (Suc n) g rng =
     (case g rng of
        Inl p \<Rightarrow> Inl p
      | Inr (s, rng') \<Rightarrow>
          (case invokeTimes n g rng' of
             Inl p \<Rightarrow> Inl p
           | Inr (t, rng'') \<Rightarrow> Inr (s @ t, rng'')))"

text \<open>
  The ranges of a class as the spec's data model wants them: every range non-empty
  (\<open>lo \<le> hi\<close>), and no two ranges sharing a code point.
\<close>

definition validRanges :: "(rune \<times> rune) list \<Rightarrow> bool" where
  "validRanges rs = list_all (\<lambda>(lo, hi). lo \<le> hi) rs"

fun disjointRanges :: "(rune \<times> rune) list \<Rightarrow> bool" where
  "disjointRanges [] = True"
| "disjointRanges ((lo, hi) # rs) =
     (lo \<le> hi \<and> list_all (\<lambda>(lo', hi'). hi < lo' \<or> hi' < lo) rs \<and> disjointRanges rs)"

text \<open>The code point \<open>r\<close> lies in one of the ranges.\<close>

definition coveredBy :: "(rune \<times> rune) list \<Rightarrow> rune \<Rightarrow> bool" where
  "coveredBy rs r = list_ex (\<lambda>(lo, hi). lo \<le> r \<and> r \<le> hi) rs"

text \<open>
  The invariants that the parser guarantees for the trees it builds, and that regen.go
  relies on without checking them: an alternation has at least one alternative, and every
  range of a character class is non-empty (\<open>lo \<le> hi\<close>), with a total size that fits the
  \<open>int32\<close> argument of \<open>Int31n\<close>. The parser does not guarantee that a class has a range at
  all: for a class that excludes every code point (the negation of the full range of code
  points) it builds a class node without runes. With \<open>strict\<close>, every class of the tree
  must have a range as well.
\<close>

fun treeOk :: "bool \<Rightarrow> regexp \<Rightarrow> bool" where
  "treeOk strict (Regexp op' flgs runes mn mx subs) =
     ((\<forall>s \<in> set subs. treeOk strict s)
      \<and> (case op' of
           OpAlternate \<Rightarrow> subs \<noteq> []
         | OpCharClass \<Rightarrow>
             validRanges (rangePairs runes) \<and> sumSizes 0 (rangePairs runes) \<le> MaxInt32
             \<and> (strict \<longrightarrow> rangePairs runes \<noteq> [])
         | _ \<Rightarrow> True))"

text \<open>A tree as the parser builds them.\<close>

definition parserTree :: "regexp \<Rightarrow> bool" where
  "parserTree r = treeOk False r"

text \<open>A tree as the parser builds them, in which no character class is empty.\<close>

definition wellFormed :: "regexp \<Rightarrow> bool" where
  "wellFormed r = treeOk True r"


section \<open>Properties\<close>

lemmas factory_defs =
  generatorFactories_def opEmptyMatch_def opLiteral_def opAnyChar_def opAnyCharNotNl_def
  opCharClass_def opQuest_def opStar_def opPlus_def opRepeat_def opConcat_def opAlternate_def
  opCapture_def noop_def enforceOp_def Let_def

lemmas simplify_defs = Simplify_def simplifyRepeat_def simplify1_def

subsection \<open>Normalisation\<close>





















subsection \<open>Zero children\<close>

text \<open>
  C3, as the code has it: a Concatenation node with zero children builds a generator that
  returns the empty string on every invocation. An Alternation node with zero children
  also builds a generator, but every invocation of it panics: \<open>Intn(numGens)\<close> is called
  with \<open>numGens = 0\<close>.
\<close>

theorem empty_concat_alternate:
  assumes "simplify r = Some s" and "Sub s = []"
  shows "(Op s = OpConcat \<longrightarrow>
            (\<exists>g. newGenerator simplify (Suc depth) r = Some (Inr g)
                 \<and> (\<forall>rng. g rng = Inr ([], rng))))
       \<and> (Op s = OpAlternate \<longrightarrow>
            (\<exists>g. newGenerator simplify (Suc depth) r = Some (Inr g)
                 \<and> (\<forall>rng. g rng = Inl (InvalidArgument ''Intn''))))"
  using assms by (auto simp: factory_defs alternateGen_def Intn_def)

theorem empty_concat_alternate_witness:
  "generateOnce (newGenerator Simplify (Suc 0) (Regexp OpConcat 0 [] 0 0 [])) (constRng 7) =
     Some (Inr [])"
  using empty_concat_alternate [of Simplify "Regexp OpConcat 0 [] 0 0 []"
      "Regexp OpConcat 0 [] 0 0 []" 0]
  by (auto simp: generateOnce_def simplify_defs Let_def)

text \<open>
  C3 as stated fails for the Alternation: the generator built from an Alternation node
  with zero children does not return the empty string.
\<close>

theorem empty_alternate_panics:
  "generateOnce (newGenerator Simplify (Suc 0) (Regexp OpAlternate 0 [] 0 0 [])) (constRng 0) =
     Some (Inl (Panic (InvalidArgument ''Intn'')))"
  by (simp add: simplify_defs factory_defs generateOnce_def alternateGen_def Intn_def)

subsection \<open>The check of the flags\<close>

text \<open>
  C5: when the flags request \<open>UnicodeGroups\<close> and not all of \<open>Perl\<close>, \<open>NewGenerator\<close>
  returns the error "UnicodeGroups not supported" and no generator, whatever the parser and
  the compiler would do with the pattern; for every other flag combination the result is
  that of parsing and compiling.
\<close>

theorem unicode_groups_check:
  "(if (flagsOf args AND UnicodeGroups) = UnicodeGroups \<and> (flagsOf args AND Perl) \<noteq> Perl
    then NewGenerator parse simplify depth r args =
           Some (Inl (Error (GeneratorError None UnicodeGroupsNotSupported)))
    else NewGenerator parse simplify depth r args =
           (case parse r (flagsOf args) of
              Inl err \<Rightarrow> Some (Inl (Error (ParseError err)))
            | Inr regexp \<Rightarrow> newGenerator simplify depth regexp))"
  by (cases args) (simp_all add: NewGenerator_def flagsOf_def generatorError_def Let_def)

theorem unicode_groups_check_witness:
  "NewGenerator (\<lambda>p f. Inr (Regexp OpEmptyMatch 0 [] 0 0 [])) Simplify (Suc 0) ''x''
      (Some \<lparr>Flags = UnicodeGroups OR PerlX\<rparr>) =
     Some (Inl (Error (GeneratorError None UnicodeGroupsNotSupported)))
   \<and> generateOnce (NewGenerator (\<lambda>p f. Inr (Regexp OpEmptyMatch 0 [] 0 0 [])) Simplify (Suc 0) ''x''
      (Some \<lparr>Flags = Perl\<rparr>)) (constRng 0) = Some (Inr [])
   \<and> generateOnce (NewGenerator (\<lambda>p f. Inr (Regexp OpEmptyMatch 0 [] 0 0 [])) Simplify (Suc 0) ''x''
      None) (constRng 0) = Some (Inr [])"
  using unicode_groups_check [of "Some \<lparr>Flags = UnicodeGroups OR PerlX\<rparr>"
      "\<lambda>p f. Inr (Regexp OpEmptyMatch 0 [] 0 0 [])" Simplify "Suc 0" "''x''"]
    unicode_groups_check [of "Some \<lparr>Flags = Perl\<rparr>"
      "\<lambda>p f. Inr (Regexp OpEmptyMatch 0 [] 0 0 [])" Simplify "Suc 0" "''x''"]
    unicode_groups_check [of None
      "\<lambda>p f. Inr (Regexp OpEmptyMatch 0 [] 0 0 [])" Simplify "Suc 0" "''x''"]
  by (simp add: flagsOf_def UnicodeGroups_def Perl_def PerlX_def ClassNL_def OneLine_def
      simplify_defs factory_defs generateOnce_def)

subsection \<open>Nodes that need exactly one child\<close>




subsection \<open>Capture\<close>

text \<open>
  C8: a Capture node with exactly one child compiles to exactly what its child compiles
  to: the same generator (so the same string from the same state of the random source),
  or the same failure. The factory returns the result of the callback on the child
  unchanged, and through the dispatch the Capture node costs one level of the recursion.
\<close>

theorem capture_is_child:
  assumes "simplify r = Some s" and "Op s = OpCapture" and "Sub s = [c]"
  shows "opCapture rec s = rec c
         \<and> newGenerator simplify (Suc depth) r = newGenerator simplify depth c"
  using assms by (simp add: factory_defs enforceSingleSub_def)

theorem capture_is_child_witness:
  "newGenerator Simplify (Suc (Suc 0))
       (Regexp OpCapture 0 [] 0 0 [Regexp OpLiteral 0 [97, 98] 0 0 []]) =
     newGenerator Simplify (Suc 0) (Regexp OpLiteral 0 [97, 98] 0 0 [])
   \<and> generateOnce
        (newGenerator Simplify (Suc (Suc 0))
           (Regexp OpCapture 0 [] 0 0 [Regexp OpLiteral 0 [97, 98] 0 0 []]))
        (constRng 0) = Some (Inr [97, 98])"
  using capture_is_child [of Simplify "Regexp OpCapture 0 [] 0 0 [Regexp OpLiteral 0 [97, 98] 0 0 []]"
      "Regexp OpCapture 0 [] 0 0 [Regexp OpLiteral 0 [97, 98] 0 0 []]"
      "Regexp OpLiteral 0 [97, 98] 0 0 []" undefined "Suc 0"]
  by (simp add: simplify_defs factory_defs generateOnce_def RunesToString_def)

subsection \<open>The dispatch and \<open>enforceOp\<close>\<close>

lemma newGenerators_no_InvalidOp:
  assumes "\<And>s. rec s \<noteq> Some (Inl (Panic (InvalidOp a b)))"
  shows "newGenerators rec rs \<noteq> Some (Inl (Panic (InvalidOp a b)))"
  using assms by (induction rs) (auto split: option.splits sum.splits)

lemma createRepeatingGenerator_no_InvalidOp:
  assumes "\<And>s. rec s \<noteq> Some (Inl (Panic (InvalidOp a b)))"
  shows "createRepeatingGenerator rec r mn mx \<noteq> Some (Inl (Panic (InvalidOp a b)))"
  using assms [of "Sub r ! 0"]
  by (auto simp: createRepeatingGenerator_def Let_def split: option.splits sum.splits fault.splits)

lemma concat_no_InvalidOp:
  assumes "\<And>s. rec s \<noteq> Some (Inl (Panic (InvalidOp a b)))" and "Op r = OpConcat"
  shows "opConcat rec r \<noteq> Some (Inl (Panic (InvalidOp a b)))"
  using newGenerators_no_InvalidOp [of rec a b "Sub r", OF assms(1)] assms(2)
  by (auto simp: opConcat_def enforceOp_def split: option.splits sum.splits fault.splits)

lemma alternate_no_InvalidOp:
  assumes "\<And>s. rec s \<noteq> Some (Inl (Panic (InvalidOp a b)))" and "Op r = OpAlternate"
  shows "opAlternate rec r \<noteq> Some (Inl (Panic (InvalidOp a b)))"
  using newGenerators_no_InvalidOp [of rec a b "Sub r", OF assms(1)] assms(2)
  by (auto simp: opAlternate_def enforceOp_def split: option.splits sum.splits fault.splits)

lemma capture_no_InvalidOp:
  assumes "\<And>s. rec s \<noteq> Some (Inl (Panic (InvalidOp a b)))" and "Op r = OpCapture"
  shows "opCapture rec r \<noteq> Some (Inl (Panic (InvalidOp a b)))"
  using assms(1) [of "Sub r ! 0"] assms(2)
  by (auto simp: opCapture_def enforceOp_def split: option.splits)

lemma leaf_no_InvalidOp:
  "Op r = OpEmptyMatch \<Longrightarrow> opEmptyMatch r \<noteq> Some (Inl (Panic (InvalidOp a b)))"
  "Op r = OpLiteral \<Longrightarrow> opLiteral r \<noteq> Some (Inl (Panic (InvalidOp a b)))"
  "Op r = OpAnyChar \<Longrightarrow> opAnyChar r \<noteq> Some (Inl (Panic (InvalidOp a b)))"
  "Op r = OpAnyCharNotNL \<Longrightarrow> opAnyCharNotNl r \<noteq> Some (Inl (Panic (InvalidOp a b)))"
  "Op r = OpCharClass \<Longrightarrow> opCharClass r \<noteq> Some (Inl (Panic (InvalidOp a b)))"
  "noop r \<noteq> Some (Inl (Panic (InvalidOp a b)))"
  by (auto simp: opEmptyMatch_def opLiteral_def opAnyChar_def opAnyCharNotNl_def opCharClass_def
      noop_def enforceOp_def createCharClassGenerator_def Let_def)

lemma repeat_no_InvalidOp:
  assumes "\<And>s. rec s \<noteq> Some (Inl (Panic (InvalidOp a b)))"
  shows "Op r = OpQuest \<Longrightarrow> opQuest rec r \<noteq> Some (Inl (Panic (InvalidOp a b)))"
    "Op r = OpStar \<Longrightarrow> opStar rec r \<noteq> Some (Inl (Panic (InvalidOp a b)))"
    "Op r = OpPlus \<Longrightarrow> opPlus rec r \<noteq> Some (Inl (Panic (InvalidOp a b)))"
    "Op r = OpRepeat \<Longrightarrow> opRepeat rec r \<noteq> Some (Inl (Panic (InvalidOp a b)))"
  using createRepeatingGenerator_no_InvalidOp [of rec a b, OF assms]
  by (simp_all add: opQuest_def opStar_def opPlus_def opRepeat_def enforceOp_def)

text \<open>
  C10: whatever the node, the normalisation and the depth, building a generator through
  \<open>newGenerator\<close> never ends in the panic of \<open>enforceOp\<close>: the factory that the table
  gives for the operation of the simplified node checks for that same operation, at every
  level of the recursion.
\<close>

theorem enforceOp_unreachable:
  "newGenerator simplify depth r \<noteq> Some (Inl (Panic (InvalidOp expected actual)))"
proof (induction depth arbitrary: r)
  case 0
  show ?case by simp
next
  case (Suc depth)
  let ?rec = "newGenerator simplify depth"
  have rec: "\<And>s. ?rec s \<noteq> Some (Inl (Panic (InvalidOp expected actual)))"
    using Suc.IH by simp
  show ?case
  proof (cases "simplify r")
    case None
    then show ?thesis by simp
  next
    case (Some s)
    then show ?thesis
      by (cases "Op s")
        (simp_all add: generatorFactories_def leaf_no_InvalidOp
          repeat_no_InvalidOp [OF rec] concat_no_InvalidOp [OF rec]
          alternate_no_InvalidOp [OF rec] capture_no_InvalidOp [OF rec])
  qed
qed

subsection \<open>Alternation\<close>

lemma newGenerators_Inr:
  "newGenerators rec rs = Some (Inr gs) \<Longrightarrow>
     length gs = length rs \<and> (\<forall>i<length rs. rec (rs ! i) = Some (Inr (gs ! i)))"
proof (induction rs arbitrary: gs)
  case Nil
  then show ?case by simp
next
  case (Cons r rs)
  from Cons.prems obtain g gs' where g: "rec r = Some (Inr g)"
    and gs': "newGenerators rec rs = Some (Inr gs')" and eq: "gs = g # gs'"
    by (auto split: option.splits sum.splits)
  from Cons.IH [OF gs'] have len: "length gs' = length rs"
    and nth: "\<And>i. i < length rs \<Longrightarrow> rec (rs ! i) = Some (Inr (gs' ! i))" by auto
  show ?case
  proof (intro conjI allI impI)
    show "length gs = length (r # rs)" using len eq by simp
  next
    fix i assume "i < length (r # rs)"
    then show "rec ((r # rs) ! i) = Some (Inr (gs ! i))"
      using g nth eq by (cases i) auto
  qed
qed

lemma newGenerators_all:
  "(\<And>c. c \<in> set rs \<Longrightarrow> \<exists>g. rec c = Some (Inr g)) \<Longrightarrow> \<exists>gs. newGenerators rec rs = Some (Inr gs)"
proof (induction rs)
  case Nil
  show ?case by simp
next
  case (Cons r rs)
  from Cons.prems [of r] obtain g where g: "rec r = Some (Inr g)" by auto
  from Cons.IH Cons.prems obtain gs where "newGenerators rec rs = Some (Inr gs)" by auto
  with g show ?case by simp
qed

text \<open>
  C9: an Alternation node with \<open>n \<ge> 1\<close> children, all of which compile, compiles each
  child once, in order, and each invocation of its generator consumes one draw, takes the
  index \<open>draw mod n\<close> (a value in \<open>[0, n)\<close>, every value of which some draw gives) and
  returns exactly what the generator of that child returns on the remaining source. So
  every output is an output of a single child's generator, and each invocation draws its
  index afresh from the state of the source it is given.
\<close>

theorem alternate_picks_child:
  assumes norm: "simplify r = Some s"
    and op: "Op s = OpAlternate"
    and ne: "Sub s \<noteq> []"
    and kids: "\<forall>c \<in> set (Sub s). \<exists>g. newGenerator simplify depth c = Some (Inr g)"
  shows "\<exists>gs G. length gs = length (Sub s)
           \<and> (\<forall>i<length gs. newGenerator simplify depth (Sub s ! i) = Some (Inr (gs ! i)))
           \<and> newGenerator simplify (Suc depth) r = Some (Inr G)
           \<and> (\<forall>rng. rng 0 mod length gs < length gs
                  \<and> G rng = (gs ! (rng 0 mod length gs)) (\<lambda>k. rng (Suc k)))
           \<and> (\<forall>rng s' rng'. G rng = Inr (s', rng') \<longrightarrow>
                  (\<exists>i<length gs. \<exists>rng0. (gs ! i) rng0 = Inr (s', rng')))"
proof -
  let ?rec = "newGenerator simplify depth"
  from newGenerators_all [of "Sub s" ?rec] kids
  obtain gs where gs: "newGenerators ?rec (Sub s) = Some (Inr gs)" by blast
  from newGenerators_Inr [OF gs] have len: "length gs = length (Sub s)"
    and nth: "\<forall>i<length gs. ?rec (Sub s ! i) = Some (Inr (gs ! i))" by auto
  from len ne have pos: "0 < length gs" by simp
  have new: "newGenerator simplify (Suc depth) r = Some (Inr (alternateGen gs))"
    using norm op gs by (simp add: generatorFactories_def opAlternate_def enforceOp_def)
  have run: "alternateGen gs rng = (gs ! (rng 0 mod length gs)) (\<lambda>k. rng (Suc k))" for rng
  proof -
    have "int (rng 0) mod int (length gs) = int (rng 0 mod length gs)"
      by (simp add: zmod_int)
    moreover have "rng 0 mod length gs < length gs" using pos by simp
    ultimately show ?thesis
      using pos by (simp add: alternateGen_def Intn_def draw_def Let_def)
  qed
  have bound: "rng 0 mod length gs < length gs" for rng :: rng using pos by simp
  have part4: "\<forall>rng. rng 0 mod length gs < length gs
                  \<and> alternateGen gs rng = (gs ! (rng 0 mod length gs)) (\<lambda>k. rng (Suc k))"
    using bound run by simp
  have part5: "\<forall>rng s' rng'. alternateGen gs rng = Inr (s', rng') \<longrightarrow>
                  (\<exists>i<length gs. \<exists>rng0. (gs ! i) rng0 = Inr (s', rng'))"
  proof (intro allI impI)
    fix rng :: rng and s' rng'
    assume "alternateGen gs rng = Inr (s', rng')"
    then have "(gs ! (rng 0 mod length gs)) (\<lambda>k. rng (Suc k)) = Inr (s', rng')"
      by (simp add: run)
    then show "\<exists>i<length gs. \<exists>rng0. (gs ! i) rng0 = Inr (s', rng')"
      using bound [of rng] by blast
  qed
  show ?thesis
    by (rule exI [of _ gs], rule exI [of _ "alternateGen gs"])
      (intro conjI len nth new part4 part5)
qed

theorem alternate_picks_child_witness:
  "generateOnce (newGenerator Simplify (Suc (Suc 0))
      (Regexp OpAlternate 0 [] 0 0 [Regexp OpLiteral 0 [97] 0 0 [], Regexp OpLiteral 0 [98] 0 0 []]))
      (constRng 3) = Some (Inr [98])"
proof -
  let ?r = "Regexp OpAlternate 0 [] 0 0 [Regexp OpLiteral 0 [97] 0 0 [], Regexp OpLiteral 0 [98] 0 0 []]"
  have h0: "Simplify ?r = Some ?r" by (simp add: simplify_defs Let_def)
  have h1: "Op ?r = OpAlternate" by simp
  have h2: "Sub ?r \<noteq> []" by simp
  have h3: "\<forall>c \<in> set (Sub ?r). \<exists>g. newGenerator Simplify (Suc 0) c = Some (Inr g)"
    by (simp add: simplify_defs Let_def generatorFactories_def opLiteral_def enforceOp_def)
  from alternate_picks_child [OF h0 h1 h2 h3] obtain gs G
    where len: "length gs = length (Sub ?r)"
      and nth: "\<forall>i<length gs. newGenerator Simplify (Suc 0) (Sub ?r ! i) = Some (Inr (gs ! i))"
      and new: "newGenerator Simplify (Suc (Suc 0)) ?r = Some (Inr G)"
      and run: "\<forall>rng. rng 0 mod length gs < length gs
                  \<and> G rng = (gs ! (rng 0 mod length gs)) (\<lambda>k. rng (Suc k))"
    by blast
  from len have len2: "length gs = 2" by simp
  have "Suc 0 < length gs" using len2 by simp
  with nth have "newGenerator Simplify (Suc 0) (Sub ?r ! Suc 0) = Some (Inr (gs ! Suc 0))"
    by blast
  then have g1: "gs ! Suc 0 = (\<lambda>rng. Inr ([98], rng))"
    by (simp add: simplify_defs Let_def generatorFactories_def opLiteral_def enforceOp_def
        RunesToString_def)
  from run have "G (constRng 3) = (gs ! (constRng 3 0 mod length gs)) (\<lambda>k. constRng 3 (Suc k))"
    by blast
  then have "G (constRng 3) = Inr ([98], constRng 3)"
    by (simp add: len2 constRng_def g1)
  then show ?thesis
    by (simp only: new generateOnce_def option.case sum.case prod.case)
qed

subsection \<open>Repetition\<close>

lemma repeatLoop_invokeTimes:
  "repeatLoop g n buf rng =
     (case invokeTimes (nat n) g rng of
        Inl p \<Rightarrow> Inl p
      | Inr (t, rng') \<Rightarrow> Inr (buf @ t, rng'))"
proof (induction g n buf rng rule: repeatLoop.induct)
  case (1 g n buf rng)
  show ?case
  proof (cases "n > 0")
    case False
    then show ?thesis by simp
  next
    case True
    then have nat: "nat n = Suc (nat (n - 1))" by simp
    show ?thesis
    proof (cases "g rng")
      case (Inl p)
      then show ?thesis using True by (simp add: nat del: repeatLoop.simps add: repeatLoop.simps [of g n])
    next
      case (Inr x)
      obtain s rng' where x: "x = (s, rng')" by (cases x)
      have "repeatLoop g n buf rng = repeatLoop g (n - 1) (buf @ s) rng'"
        using True Inr x by (simp add: repeatLoop.simps [of g n])
      also have "\<dots> = (case invokeTimes (nat (n - 1)) g rng' of
                         Inl p \<Rightarrow> Inl p
                       | Inr (t, rng'') \<Rightarrow> Inr ((buf @ s) @ t, rng''))"
        using "1.IH" [OF True Inr x [symmetric]] by simp
      also have "\<dots> = (case invokeTimes (nat n) g rng of
                         Inl p \<Rightarrow> Inl p
                       | Inr (t, rng') \<Rightarrow> Inr (buf @ t, rng'))"
        using Inr x by (simp add: nat split: sum.splits)
      finally show ?thesis .
    qed
  qed
qed


lemma goInt_id: "- (2 ^ 63) \<le> x \<Longrightarrow> x < 2 ^ 63 \<Longrightarrow> goInt x = x"
  by (simp add: goInt_def)

lemma sum_case_id:
  "(case x of Inl p \<Rightarrow> Inl p | Inr (t, rng') \<Rightarrow> Inr ([] @ t, rng')) = x"
  by (cases x) auto

lemma createRepeatingGenerator_run:
  assumes sub: "Sub s = [c]" and child: "rec c = Some (Inr g)"
    and lo: "0 \<le> mn" and hi: "mn \<le> effectiveMax mx" and fit: "effectiveMax mx < 2 ^ 63 - 1"
  shows "createRepeatingGenerator rec s mn mx =
           Some (Inr (\<lambda>rng. invokeTimes (nat (mn + int (rng 0) mod (effectiveMax mx - mn + 1))) g
                               (\<lambda>k. rng (Suc k))))"
proof -
  let ?e = "effectiveMax mx"
  have w1: "goInt (?e - mn) = ?e - mn" using lo hi fit by (intro goInt_id) auto
  have w2: "goInt (?e - mn + 1) = ?e - mn + 1" using lo hi fit by (intro goInt_id) auto
  have pos: "0 < ?e - mn + 1" using hi by simp
  have run: "(case Intn (goInt (goInt (?e - mn) + 1)) rng of
                Inl p \<Rightarrow> Inl p
              | Inr (k, rng') \<Rightarrow> repeatLoop g (goInt (mn + k)) [] rng') =
             invokeTimes (nat (mn + int (rng 0) mod (?e - mn + 1))) g (\<lambda>k. rng (Suc k))" for rng
  proof -
    let ?k = "int (rng 0) mod (?e - mn + 1)"
    have k0: "0 \<le> ?k" using pos by (rule pos_mod_sign)
    have k1: "?k < ?e - mn + 1" using pos by (rule pos_mod_bound)
    have a: "- (2 ^ 63) \<le> mn + ?k" using lo k0 by simp
    have b: "mn + ?k < 2 ^ 63" using k1 fit by simp
    have w3: "goInt (mn + ?k) = mn + ?k" using a b by (rule goInt_id)
    have "Intn (goInt (goInt (?e - mn) + 1)) rng = Inr (?k, \<lambda>k. rng (Suc k))"
      using pos by (simp add: w1 w2 Intn_def draw_def)
    then show ?thesis
      by (simp add: w3 repeatLoop_invokeTimes sum_case_id del: repeatLoop.simps)
  qed
  have "createRepeatingGenerator rec s mn mx =
          Some (Inr (\<lambda>rng. case Intn (goInt (goInt (?e - mn) + 1)) rng of
                Inl p \<Rightarrow> Inl p
              | Inr (k, rng') \<Rightarrow> repeatLoop g (goInt (mn + k)) [] rng'))"
    using sub child
    by (simp add: createRepeatingGenerator_def enforceSingleSub_def effectiveMax_def Let_def
        del: repeatLoop.simps)
  then show ?thesis by (simp only: run)
qed

text \<open>
  What the generator of a node \<open>?\<close>, \<open>*\<close> or \<open>+\<close> does, once the normalisation has
  returned such a node with a single child that compiles: each invocation consumes one
  draw, takes \<open>n = min + draw mod (effectiveMax - min + 1)\<close> and invokes the child \<open>n\<close>
  times, with the bounds \<open>(0, 1)\<close>, \<open>(0, 4096)\<close> and \<open>(1, 4096)\<close>.
\<close>

lemma unary_repeat_count:
  assumes norm: "simplify r = Some s"
    and node: "(Op s, mn, mx) \<in> {(OpQuest, 0, 1), (OpStar, 0, - 1), (OpPlus, 1, - 1)}"
    and sub: "Sub s = [c]"
    and child: "newGenerator simplify depth c = Some (Inr g)"
  shows "newGenerator simplify (Suc depth) r =
           Some (Inr (\<lambda>rng. invokeTimes (nat (mn + int (rng 0) mod (effectiveMax mx - mn + 1))) g
                               (\<lambda>k. rng (Suc k))))"
proof -
  from node have b: "0 \<le> mn" "mn \<le> effectiveMax mx" "effectiveMax mx < 2 ^ 63 - 1"
    by (auto simp: effectiveMax_def MaxUpperBound_def)
  have "createRepeatingGenerator (newGenerator simplify depth) s mn mx =
          Some (Inr (\<lambda>rng. invokeTimes (nat (mn + int (rng 0) mod (effectiveMax mx - mn + 1))) g
                               (\<lambda>k. rng (Suc k))))"
    using sub child b by (rule createRepeatingGenerator_run)
  then show ?thesis
    using norm node
    by (auto simp: generatorFactories_def opQuest_def opStar_def opPlus_def enforceOp_def)
qed

lemma invokeTimes_literal:
  "invokeTimes n (\<lambda>rng. Inr (s, rng)) rng = Inr (concat (replicate n s), rng)"
  by (induction n) simp_all

lemma cons_concat_replicate: "[x] @ concat (replicate n [x]) = replicate (Suc n) x"
  by (induction n) simp_all

text \<open>
  C2 fails on the code. \<open>newGenerator\<close> normalises the node before it looks the factory
  up, and the normalisation never returns a counted repetition: \<open>opRepeat\<close>, which would
  draw the count from \<open>[min, effectiveMax]\<close>, is never reached. The pattern \<open>a{2,}\<close> is
  rewritten into \<open>a\<close> followed by \<open>a+\<close>, and \<open>a+\<close> alone repeats up to \<open>MaxUpperBound\<close>
  times: when \<open>Intn(4096)\<close> returns 4095 the generator returns \<open>MaxUpperBound + 1\<close>
  copies of \<open>a\<close>, one more than the bound for unbounded repetitions.
\<close>

theorem counted_repeat_exceeds_bound:
  "generateOnce (newGenerator Simplify (Suc (Suc (Suc 0)))
       (Regexp OpRepeat 0 [] 2 (- 1) [Regexp OpLiteral 0 [97] 0 0 []])) (constRng 4095) =
     Some (Inr (replicate (nat MaxUpperBound + 1) 97))"
proof -
  let ?a = "Regexp OpLiteral 0 [97] 0 0 []"
  let ?plus = "Regexp OpPlus 0 [] 0 0 [?a]"
  let ?r = "Regexp OpRepeat 0 [] 2 (- 1) [?a]"
  let ?ga = "\<lambda>rng :: rng. Inr ([97 :: rune], rng) :: panic + (gostring \<times> rng)"
  let ?gp = "\<lambda>rng :: rng. invokeTimes (nat (1 + int (rng 0) mod (effectiveMax (- 1) - 1 + 1))) ?ga
               (\<lambda>k. rng (Suc k))"
  have sr: "Simplify ?r = Some (Regexp OpConcat 0 [] 0 0 [?a, ?plus])"
    by (simp add: simplify_defs Let_def)
  have sa: "Simplify ?a = Some ?a" by (simp add: simplify_defs Let_def)
  have sp: "Simplify ?plus = Some ?plus" by (simp add: simplify_defs Let_def)
  have ga: "newGenerator Simplify (Suc n) ?a = Some (Inr ?ga)" for n
    by (simp add: sa generatorFactories_def opLiteral_def enforceOp_def RunesToString_def)
  have gp: "newGenerator Simplify (Suc (Suc 0)) ?plus = Some (Inr ?gp)"
    by (rule unary_repeat_count [OF sp _ _ ga]) simp_all
  have new: "newGenerator Simplify (Suc (Suc (Suc 0))) ?r =
               Some (Inr (concatLoop [?ga, ?gp] []))"
    using ga [of "Suc 0"] gp
    by (simp add: sr generatorFactories_def opConcat_def enforceOp_def
        newGenerator.simps(2) [of Simplify "Suc (Suc 0)" ?r]
        del: newGenerator.simps concatLoop.simps)
  have count: "nat (1 + int (constRng 4095 0) mod (effectiveMax (- 1) - 1 + 1)) = Suc 4095"
    by (simp add: constRng_def effectiveMax_def MaxUpperBound_def)
  have "concatLoop [?ga, ?gp] [] (constRng 4095) =
          Inr ([97] @ concat (replicate (Suc 4095) [97]), constRng 4095)"
    by (simp only: concatLoop.simps count invokeTimes_literal sum.case prod.case append_Nil)
      (simp add: constRng_def)
  then have "concatLoop [?ga, ?gp] [] (constRng 4095) =
          Inr (replicate (Suc (Suc 4095)) 97, constRng 4095)"
    by (simp only: cons_concat_replicate)
  moreover have "nat MaxUpperBound + 1 = Suc (Suc 4095)" by (simp add: MaxUpperBound_def)
  ultimately show ?thesis
    by (simp only: new generateOnce_def option.case sum.case prod.case)
qed

subsection \<open>The Character-Class Index\<close>

lemma validRanges_simps [simp]:
  "validRanges [] = True"
  "validRanges ((lo, hi) # rs) = (lo \<le> hi \<and> validRanges rs)"
  by (simp_all add: validRanges_def)

lemma coveredBy_simps [simp]:
  "coveredBy [] r = False"
  "coveredBy ((lo, hi) # rs) r = ((lo \<le> r \<and> r \<le> hi) \<or> coveredBy rs r)"
  by (simp_all add: coveredBy_def)

lemma disjoint_valid: "disjointRanges rs \<Longrightarrow> validRanges rs"
  by (induction rs) auto

lemma disjoint_not_covered:
  "list_all (\<lambda>(lo', hi'). hi < lo' \<or> hi' < lo) rs \<Longrightarrow> lo \<le> r \<Longrightarrow> r \<le> hi \<Longrightarrow> \<not> coveredBy rs r"
  by (induction rs) auto

lemma sumSizes_acc: "sumSizes acc rs = acc + sumSizes 0 rs"
proof (induction rs arbitrary: acc)
  case Nil
  show ?case by simp
next
  case (Cons p rs)
  obtain lo hi where p: "p = (lo, hi)" by (cases p)
  show ?case
    using Cons.IH [of "acc + (hi - lo + 1)"] Cons.IH [of "0 + (hi - lo + 1)"] by (simp add: p)
qed

lemma sumSizes_sum: "sumSizes 0 rs = (\<Sum>(lo, hi)\<leftarrow>rs. hi - lo + 1)"
proof (induction rs)
  case Nil
  show ?case by simp
next
  case (Cons p rs)
  obtain lo hi where p: "p = (lo, hi)" by (cases p)
  show ?case using Cons.IH sumSizes_acc [of "0 + (hi - lo + 1)" rs] by (simp add: p)
qed

lemma sumSizes_mono: "validRanges rs \<Longrightarrow> cum \<le> sumSizes cum rs"
proof (induction rs arbitrary: cum)
  case Nil
  show ?case by simp
next
  case (Cons p rs)
  obtain lo hi where p: "p = (lo, hi)" by (cases p)
  from Cons.prems p have v: "lo \<le> hi" "validRanges rs" by simp_all
  from Cons.IH [OF v(2), of "cum + (hi - lo + 1)"] v(1) show ?case by (simp add: p)
qed

lemma walk_covered:
  "validRanges rs \<Longrightarrow> cum \<le> i \<Longrightarrow> walkRanges cum rs i = Inr r \<Longrightarrow>
     coveredBy rs r \<and> i < sumSizes cum rs"
proof (induction rs arbitrary: cum)
  case Nil
  then show ?case by simp
next
  case (Cons p rs)
  obtain lo hi where p: "p = (lo, hi)" by (cases p)
  from Cons.prems p have v: "lo \<le> hi" "validRanges rs" by simp_all
  show ?case
  proof (cases "i < cum + (hi - lo + 1)")
    case True
    with Cons.prems p have r: "r = lo + (i - cum)" by simp
    have "cum + (hi - lo + 1) \<le> sumSizes (cum + (hi - lo + 1)) rs"
      by (rule sumSizes_mono [OF v(2)])
    with True r Cons.prems(2) show ?thesis by (simp add: p)
  next
    case False
    with Cons.prems p have w: "walkRanges (cum + (hi - lo + 1)) rs i = Inr r" by simp
    from False have "cum + (hi - lo + 1) \<le> i" by simp
    from Cons.IH [OF v(2) this w] show ?thesis by (simp add: p)
  qed
qed

lemma walk_total:
  "validRanges rs \<Longrightarrow> cum \<le> i \<Longrightarrow> i < sumSizes cum rs \<Longrightarrow> \<exists>r. walkRanges cum rs i = Inr r"
proof (induction rs arbitrary: cum)
  case Nil
  then show ?case by simp
next
  case (Cons p rs)
  obtain lo hi where p: "p = (lo, hi)" by (cases p)
  from Cons.prems p have v: "validRanges rs" by simp
  show ?case
  proof (cases "i < cum + (hi - lo + 1)")
    case True
    then show ?thesis by (simp add: p)
  next
    case False
    from Cons.prems(3) p have "i < sumSizes (cum + (hi - lo + 1)) rs" by simp
    moreover from False have "cum + (hi - lo + 1) \<le> i" by simp
    ultimately show ?thesis using Cons.IH [OF v] False by (simp add: p)
  qed
qed

lemma walk_inj:
  "disjointRanges rs \<Longrightarrow> cum \<le> i \<Longrightarrow> cum \<le> j \<Longrightarrow>
     walkRanges cum rs i = Inr r \<Longrightarrow> walkRanges cum rs j = Inr r \<Longrightarrow> i = j"
proof (induction rs arbitrary: cum)
  case Nil
  then show ?case by simp
next
  case (Cons p rs)
  obtain lo hi where p: "p = (lo, hi)" by (cases p)
  from Cons.prems(1) p have d: "lo \<le> hi"
    "list_all (\<lambda>(lo', hi'). hi < lo' \<or> hi' < lo) rs" "disjointRanges rs" by simp_all
  have v: "validRanges rs" by (rule disjoint_valid [OF d(3)])
  let ?c = "cum + (hi - lo + 1)"
  have here: "k < ?c \<Longrightarrow> cum \<le> k \<Longrightarrow> walkRanges cum (p # rs) k = Inr r \<Longrightarrow>
      r = lo + (k - cum) \<and> lo \<le> r \<and> r \<le> hi" for k
    by (auto simp: p)
  have there: "\<not> k < ?c \<Longrightarrow> walkRanges cum (p # rs) k = Inr r \<Longrightarrow>
      walkRanges ?c rs k = Inr r \<and> coveredBy rs r" for k
  proof -
    assume a: "\<not> k < ?c" and w: "walkRanges cum (p # rs) k = Inr r"
    from a w have w': "walkRanges ?c rs k = Inr r" by (simp add: p)
    from a have "?c \<le> k" by simp
    from walk_covered [OF v this w'] w' show ?thesis by simp
  qed
  show ?case
  proof (cases "i < ?c")
    case True
    note hi = here [OF True Cons.prems(2) Cons.prems(4)]
    show ?thesis
    proof (cases "j < ?c")
      case True
      from here [OF True Cons.prems(3) Cons.prems(5)] hi show ?thesis by simp
    next
      case False
      from there [OF False Cons.prems(5)] have "coveredBy rs r" by simp
      moreover from hi have "\<not> coveredBy rs r" by (intro disjoint_not_covered [OF d(2)]) auto
      ultimately show ?thesis by simp
    qed
  next
    case False
    note ti = there [OF False Cons.prems(4)]
    show ?thesis
    proof (cases "j < ?c")
      case True
      from here [OF True Cons.prems(3) Cons.prems(5)]
      have "\<not> coveredBy rs r" by (intro disjoint_not_covered [OF d(2)]) auto
      with ti show ?thesis by simp
    next
      case F2: False
      from there [OF F2 Cons.prems(5)] have wj: "walkRanges ?c rs j = Inr r" by simp
      from ti have wi: "walkRanges ?c rs i = Inr r" by simp
      from False F2 have "?c \<le> i" "?c \<le> j" by simp_all
      from Cons.IH [OF d(3) this wi wj] show ?thesis .
    qed
  qed
qed

lemma walk_surj:
  "validRanges rs \<Longrightarrow> coveredBy rs r \<Longrightarrow>
     \<exists>i. cum \<le> i \<and> i < sumSizes cum rs \<and> walkRanges cum rs i = Inr r"
proof (induction rs arbitrary: cum)
  case Nil
  then show ?case by simp
next
  case (Cons p rs)
  obtain lo hi where p: "p = (lo, hi)" by (cases p)
  from Cons.prems p have v: "lo \<le> hi" "validRanges rs" by simp_all
  let ?c = "cum + (hi - lo + 1)"
  show ?case
  proof (cases "lo \<le> r \<and> r \<le> hi")
    case True
    let ?i = "cum + (r - lo)"
    have "?c \<le> sumSizes ?c rs" by (rule sumSizes_mono [OF v(2)])
    with True have "cum \<le> ?i \<and> ?i < sumSizes cum (p # rs) \<and> walkRanges cum (p # rs) ?i = Inr r"
      by (simp add: p)
    then show ?thesis by blast
  next
    case False
    with Cons.prems(2) p have "coveredBy rs r" by simp
    from Cons.IH [OF v(2) this, of ?c] obtain i where
      i: "?c \<le> i" "i < sumSizes ?c rs" "walkRanges ?c rs i = Inr r" by blast
    with v(1) have "cum \<le> i \<and> i < sumSizes cum (p # rs) \<and> walkRanges cum (p # rs) i = Inr r"
      by (simp add: p)
    then show ?thesis by blast
  qed
qed

lemma goInt32_id: "- (2 ^ 31) \<le> x \<Longrightarrow> x < 2 ^ 31 \<Longrightarrow> goInt32 x = x"
  by (simp add: goInt32_def)

lemma TotalSize_fits:
  assumes v: "validRanges rs" and fit: "sumSizes 0 rs \<le> MaxInt32"
  shows "TotalSize (buildCharClass rs) = sumSizes 0 rs"
proof -
  have "0 \<le> sumSizes 0 rs" using sumSizes_mono [OF v, of 0] by simp
  with fit have "goInt32 (sumSizes 0 rs) = sumSizes 0 rs"
    by (intro goInt32_id) (simp_all add: MaxInt32_def)
  then show ?thesis by (simp add: buildCharClass_def)
qed

text \<open>
  C7, as the code has it: the total is a 32-bit signed count. For a Character-Class Index
  built from disjoint inclusive ranges whose sizes sum to at most \<open>2^31 - 1\<close>, the total
  size is the exact sum of \<open>hi - lo + 1\<close> over the ranges, which is the number of code
  points covered; every index in \<open>[0, totalSize)\<close> gives a covered code point, and the
  lookup is a bijection from \<open>[0, totalSize)\<close> onto the covered code points.
\<close>

theorem char_class_index:
  assumes dis: "disjointRanges rs" and fit: "(\<Sum>(lo, hi)\<leftarrow>rs. hi - lo + 1) \<le> MaxInt32"
  shows "TotalSize (buildCharClass rs) = (\<Sum>(lo, hi)\<leftarrow>rs. hi - lo + 1)
       \<and> (rs \<noteq> [] \<longrightarrow> totalSize (buildCharClass rs) = Inr (\<Sum>(lo, hi)\<leftarrow>rs. hi - lo + 1))
       \<and> TotalSize (buildCharClass rs) = int (card {r. coveredBy rs r})
       \<and> (\<forall>i. 0 \<le> i \<and> i < TotalSize (buildCharClass rs) \<longrightarrow>
             (\<exists>r. GetRuneAt (buildCharClass rs) i = Inr r \<and> coveredBy rs r))
       \<and> bij_betw (\<lambda>i. projr (GetRuneAt (buildCharClass rs) i))
            {0..<TotalSize (buildCharClass rs)} {r. coveredBy rs r}"
proof -
  let ?c = "buildCharClass rs"
  have v: "validRanges rs" by (rule disjoint_valid [OF dis])
  from fit have fit': "sumSizes 0 rs \<le> MaxInt32" by (simp add: sumSizes_sum)
  have c: "Ranges ?c = rs" "TotalSize ?c = sumSizes 0 rs"
    using TotalSize_fits [OF v fit'] by (simp_all add: buildCharClass_def)
  have get: "0 \<le> i \<Longrightarrow> GetRuneAt ?c i = walkRanges 0 rs i" for i
    by (simp add: GetRuneAt_def c)
  have total: "\<exists>r. GetRuneAt ?c i = Inr r \<and> coveredBy rs r" if "0 \<le> i" "i < TotalSize ?c" for i
  proof -
    from walk_total [OF v, of 0 i] that c obtain r where r: "walkRanges 0 rs i = Inr r" by auto
    from walk_covered [OF v that(1) r] r get [OF that(1)] show ?thesis by simp
  qed
  have bij: "bij_betw (\<lambda>i. projr (GetRuneAt ?c i)) {0..<TotalSize ?c} {r. coveredBy rs r}"
  proof (rule bij_betwI')
    fix i j assume "i \<in> {0..<TotalSize ?c}" "j \<in> {0..<TotalSize ?c}"
    then have ij: "0 \<le> i" "i < TotalSize ?c" "0 \<le> j" "j < TotalSize ?c" by simp_all
    from total [OF ij(1,2)] obtain r where r: "GetRuneAt ?c i = Inr r" by blast
    from total [OF ij(3,4)] obtain r' where r': "GetRuneAt ?c j = Inr r'" by blast
    show "(projr (GetRuneAt ?c i) = projr (GetRuneAt ?c j)) = (i = j)"
    proof
      assume "projr (GetRuneAt ?c i) = projr (GetRuneAt ?c j)"
      with r r' have "r = r'" by simp
      with r r' get ij have "walkRanges 0 rs i = Inr r" "walkRanges 0 rs j = Inr r" by simp_all
      from walk_inj [OF dis ij(1) ij(3) this] show "i = j" .
    qed simp
  next
    fix i assume "i \<in> {0..<TotalSize ?c}"
    then have i: "0 \<le> i" "i < TotalSize ?c" by simp_all
    from total [OF i] show "projr (GetRuneAt ?c i) \<in> {r. coveredBy rs r}" by auto
  next
    fix r assume "r \<in> {r. coveredBy rs r}"
    then have "coveredBy rs r" by simp
    from walk_surj [OF v this, of 0] obtain i where
      i: "0 \<le> i" "i < sumSizes 0 rs" "walkRanges 0 rs i = Inr r" by blast
    with get c have "i \<in> {0..<TotalSize ?c}" "r = projr (GetRuneAt ?c i)" by simp_all
    then show "\<exists>i\<in>{0..<TotalSize ?c}. r = projr (GetRuneAt ?c i)" by blast
  qed
  have pos: "0 \<le> TotalSize ?c" using sumSizes_mono [OF v, of 0] c by simp
  have "card {r. coveredBy rs r} = card {0..<TotalSize ?c}"
    using bij_betw_same_card [OF bij] by simp
  then have card: "TotalSize ?c = int (card {r. coveredBy rs r})" using pos by simp
  have sum: "TotalSize ?c = (\<Sum>(lo, hi)\<leftarrow>rs. hi - lo + 1)" using c sumSizes_sum [of rs] by simp
  have read: "rs \<noteq> [] \<longrightarrow> totalSize ?c = Inr (\<Sum>(lo, hi)\<leftarrow>rs. hi - lo + 1)"
    using sum c(1) by (simp add: totalSize_def)
  from sum read card total bij show ?thesis by blast
qed

theorem char_class_index_witness:
  "disjointRanges [(1, MaxInt32)]
   \<and> TotalSize (NewCharClass 1 MaxInt32) = 2147483647
   \<and> totalSize (NewCharClass 1 MaxInt32) = Inr 2147483647
   \<and> bij_betw (\<lambda>i. projr (GetRuneAt (NewCharClass 1 MaxInt32) i))
        {0..<2147483647} {r. coveredBy [(1, MaxInt32)] r}"
proof -
  have dis: "disjointRanges [(1, MaxInt32)]" by (simp add: MaxInt32_def)
  have sum: "(\<Sum>(lo, hi)\<leftarrow>[(1, MaxInt32)]. hi - lo + 1) = 2147483647"
    by (simp add: MaxInt32_def)
  have fit: "(\<Sum>(lo, hi)\<leftarrow>[(1, MaxInt32)]. hi - lo + 1) \<le> MaxInt32" by simp
  have new: "NewCharClass 1 MaxInt32 = buildCharClass [(1, MaxInt32)]"
    by (simp add: NewCharClass_def)
  note index = char_class_index [OF dis fit, unfolded sum]
  from index have a: "TotalSize (buildCharClass [(1, MaxInt32)]) = 2147483647"
    by (rule conjunct1)
  from index have b: "totalSize (buildCharClass [(1, MaxInt32)]) = Inr 2147483647"
    by blast
  from index have d: "bij_betw (\<lambda>i. projr (GetRuneAt (buildCharClass [(1, MaxInt32)]) i))
      {0..<TotalSize (buildCharClass [(1, MaxInt32)])} {r. coveredBy [(1, MaxInt32)] r}"
    by blast
  show ?thesis unfolding new by (intro conjI dis a b d [unfolded a])
qed

text \<open>
  C7 as stated fails where the sum does not fit 32 bits: the full space of code points
  \<open>[0, 0x7FFFFFFF]\<close> is a single range of \<open>2^31\<close> code points, and the total of the class
  built from it is \<open>-2^31\<close>.
\<close>

theorem full_space_total_wraps:
  "disjointRanges [(0, MaxInt32)]
   \<and> (\<Sum>(lo, hi)\<leftarrow>[(0, MaxInt32)]. hi - lo + 1) = 2147483648
   \<and> totalSize (NewCharClass 0 MaxInt32) = Inr (- 2147483648)"
  by (simp add: NewCharClass_def buildCharClass_def totalSize_def goInt32_def MaxInt32_def)

subsection \<open>Any character but newline\<close>

text \<open>
  The generator of a node \<open>OpAnyCharNotNL\<close> always returns a single code point, taken
  from \<open>[1, MaxInt32]\<close>.
\<close>

lemma dot_single_code_point:
  "\<exists>r. 1 \<le> r \<and> r \<le> MaxInt32
       \<and> generateOnce (newGenerator Simplify (Suc 0) (Regexp OpAnyCharNotNL flgs [] 0 0 [])) rng
           = Some (Inr [r])"
proof -
  let ?v = "int (rng 0) mod 2147483647"
  have v: "0 \<le> ?v" "?v < 2147483647" by simp_all
  have "generateOnce (newGenerator Simplify (Suc 0) (Regexp OpAnyCharNotNL flgs [] 0 0 [])) rng =
          Some (Inr [1 + ?v])"
    using v
    by (simp add: simplify_defs generateOnce_def generatorFactories_def opAnyCharNotNl_def
      enforceOp_def NewCharClass_def buildCharClass_def totalSize_def goInt32_def
      createCharClassGenerator_def Int31n_def draw_def MaxInt32_def GetRuneAt_def Abs_def
      RunesToString_def Let_def)
  moreover have "1 \<le> 1 + ?v \<and> 1 + ?v \<le> MaxInt32" using v by (simp add: MaxInt32_def)
  ultimately show ?thesis by blast
qed

text \<open>
  C1 fails on the code: the class that \<open>opAnyCharNotNl\<close> builds is the whole range
  \<open>[1, MaxInt32]\<close>, newline included. When \<open>Int31n\<close> returns 9 the generator for the
  pattern \<open>.\<close> returns the string made of the code point 10.
\<close>

theorem dot_generates_newline:
  "generateOnce (newGenerator Simplify (Suc 0) (Regexp OpAnyCharNotNL 0 [] 0 0 [])) (constRng 9) =
     Some (Inr [10])"
  by (simp add: simplify_defs generateOnce_def constRng_def generatorFactories_def
      opAnyCharNotNl_def enforceOp_def NewCharClass_def buildCharClass_def totalSize_def
      goInt32_def createCharClassGenerator_def Int31n_def draw_def MaxInt32_def GetRuneAt_def
      Abs_def RunesToString_def Let_def)

subsection \<open>Generation does not fail on the trees of the parser without an empty class\<close>









text \<open>A tree without an empty class is, in particular, a tree of the parser.\<close>

lemma wellFormed_parserTree: "wellFormed r \<Longrightarrow> parserTree r"
  unfolding wellFormed_def parserTree_def
  by (induction r) (auto split: op.splits)




text \<open>
  The invariants of the parser are all needed, since the closures check nothing: for an
  alternation without alternative, for a class with a range whose bounds are inverted and
  for a class whose total does not fit 32 bits, the generator is built and its invocation
  panics.
\<close>

lemma parser_invariants_needed:
  "generateOnce (newGenerator Simplify (Suc 0) (Regexp OpAlternate 0 [] 0 0 [])) (constRng 0) =
     Some (Inl (Panic (InvalidArgument ''Intn'')))
   \<and> generateOnce (newGenerator Simplify (Suc 0) (Regexp OpCharClass 0 [5, 3] 0 0 []))
       (constRng 0) = Some (Inl (Panic (InvalidArgument ''Int31n'')))
   \<and> generateOnce (newGenerator Simplify (Suc 0) (Regexp OpCharClass 0 [0, 2147483647] 0 0 []))
       (constRng 0) = Some (Inl (Panic (InvalidArgument ''Int31n'')))"
  by (simp add: simplify_defs factory_defs generateOnce_def alternateGen_def Intn_def
      ParseCharClass_def buildCharClass_def totalSize_def goInt32_def
      createCharClassGenerator_def Int31n_def)

end
